theory Spec2Isabelle
  imports Complex_Main "HOL-Library.Word"
begin

section \<open>The members declared in gazebo\_mavlink\_interface.h\<close>

text \<open>
  The header declares the state of \<open>GazeboMavlinkInterface\<close>: per-channel arrays of
  \<open>n_out_max = 16\<close> entries, the lockstep flags and the \<open>uint8_t\<close> counter
  \<open>previous_imu_seq_\<close>. The bodies of the member functions are in a source file that
  is not part of this development; each of them used below is modelled from the
  specification and marked so. A \<open>double\<close> is read as a real number; the concrete
  evaluations below only copy values or multiply by the literal \<open>1.0\<close>, which is exact
  in IEEE arithmetic as well.
\<close>

definition n_out_max :: nat where
  "n_out_max = 16"

text \<open>
  C++ aggregate initialisation of an array of \<open>n\<close> doubles from a brace list: the listed
  values come first and every remaining element is value-initialised, that is \<open>0.0\<close>.
  A brace list longer than the array does not compile, which is \<open>None\<close> here.
\<close>

definition aggregate_init :: "nat \<Rightarrow> real list \<Rightarrow> real list option" where
  "aggregate_init n inits =
     (if length inits \<le> n then Some (inits @ replicate (n - length inits) 0) else None)"

text \<open>\<open>double motor_vel_scalings_[n_out_max] {1.0};\<close>\<close>

definition motor_vel_scalings_init :: "real list option" where
  "motor_vel_scalings_init = aggregate_init n_out_max [1.0]"

text \<open>
  \<open>uint8_t previous_imu_seq_ = 0;\<close>
  The member is eight bits wide. Assigning an integer to it keeps the value modulo 256
  (the conversion C++ defines for unsigned types), and incrementing it promotes to
  \<open>int\<close>, adds one and converts back.
\<close>

type_synonym uint8_t = "8 word"

definition previous_imu_seq_init :: uint8_t where
  "previous_imu_seq_init = 0"

definition store_imu_seq :: "nat \<Rightarrow> uint8_t" where
  "store_imu_seq n = of_nat n"

definition next_imu_seq :: "uint8_t \<Rightarrow> uint8_t" where
  "next_imu_seq s = of_nat (unat s + 1)"

section \<open>ActuatorDispatcher\<close>

text \<open>
  The header holds the channel table as parallel arrays indexed by the output channel:
  \<open>joint_control_type_\<close>, \<open>zero_position_disarmed_\<close>, \<open>zero_position_armed_\<close>,
  \<open>input_offset_\<close>, \<open>motor_vel_scalings_\<close> and the \<open>int\<close> arrays
  \<open>motor_input_index_\<close> and \<open>servo_input_index_\<close>. One entry of the table is one
  record, and the table is the list of entries in channel order. The header keeps the
  control type as a string; the spec reads it as one of three tags, which is the datatype
  here. The transport topic of a channel (\<open>gztopic_\<close>) has no part in the output value.
\<close>

datatype control_type = Motor | Servo | Unused

record channel_config =
  joint_control_type :: control_type
  zero_position_disarmed :: real
  zero_position_armed :: real
  input_offset :: real
  motor_vel_scaling :: real
  motor_input_index :: int
  servo_input_index :: int

text \<open>
  A decoded command: the armed state the inbound message carries and the ordered channel
  intensities (at most 16).
\<close>

record actuator_command =
  armed :: bool
  controls :: "real list"

datatype dispatch_error = SourceIndexOutOfRange int

text \<open>
  Reading the command at a source index. The index arrays of the header are signed, and a
  command may be shorter than 16 entries, so the read can miss; the miss is a value of
  its own here.
\<close>

definition raw_value :: "real list \<Rightarrow> int \<Rightarrow> real option" where
  "raw_value cs i = (if 0 \<le> i \<and> nat i < length cs then Some (cs ! nat i) else None)"

text \<open>
  Modelled from the spec: the body of \<open>handle_actuator_controls\<close> is not in the header.
  Section 4.4 gives the output of a motor channel as
  \<open>output = armed ? rawValue * scaling : zeroPositionDisarmed\<close>
  and the output of a servo channel by the same substitution and scaling. The raw value
  is the command entry at the channel's source index, which is only read when armed.
\<close>

definition scaled_output :: "actuator_command \<Rightarrow> channel_config \<Rightarrow> int \<Rightarrow> dispatch_error + real" where
  "scaled_output cmd c i =
     (if armed cmd
      then (case raw_value (controls cmd) i of
              None \<Rightarrow> Inl (SourceIndexOutOfRange i)
            | Some r \<Rightarrow> Inr (r * motor_vel_scaling c))
      else Inr (zero_position_disarmed c))"

definition motor_output :: "actuator_command \<Rightarrow> channel_config \<Rightarrow> dispatch_error + real" where
  "motor_output cmd c = scaled_output cmd c (motor_input_index c)"

definition servo_output :: "actuator_command \<Rightarrow> channel_config \<Rightarrow> dispatch_error + real" where
  "servo_output cmd c = scaled_output cmd c (servo_input_index c)"

text \<open>Collecting the outputs of a list of channels; the first miss is the result.\<close>

fun collect :: "('e + 'a) list \<Rightarrow> 'e + 'a list" where
  "collect [] = Inr []"
| "collect (Inl e # rs) = Inl e"
| "collect (Inr v # rs) = (case collect rs of Inl e \<Rightarrow> Inl e | Inr vs \<Rightarrow> Inr (v # vs))"

definition channels_of :: "control_type \<Rightarrow> channel_config list \<Rightarrow> channel_config list" where
  "channels_of t cfg = filter (\<lambda>c. joint_control_type c = t) cfg"

text \<open>
  Modelled from the spec: the motor outputs are collected into a motor-velocity vector in
  index order, the servo outputs into a servo-position vector (section 4.4). The
  aggregated thrust and torque mode (\<open>input_is_cmd_vel_\<close>) is left out: the spec does
  not say how the two scalars are derived from the command.
\<close>

definition motor_velocities :: "channel_config list \<Rightarrow> actuator_command \<Rightarrow> dispatch_error + real list" where
  "motor_velocities cfg cmd = collect (map (motor_output cmd) (channels_of Motor cfg))"

definition servo_positions :: "channel_config list \<Rightarrow> actuator_command \<Rightarrow> dispatch_error + real list" where
  "servo_positions cfg cmd = collect (map (servo_output cmd) (channels_of Servo cfg))"

record dispatch_output =
  motor_input_reference :: "real list"
  servo_input_reference :: "real list"

definition ActuatorDispatcher :: "channel_config list \<Rightarrow> actuator_command \<Rightarrow> dispatch_error + dispatch_output" where
  "ActuatorDispatcher cfg cmd =
     (case motor_velocities cfg cmd of
        Inl e \<Rightarrow> Inl e
      | Inr m \<Rightarrow> (case servo_positions cfg cmd of
                   Inl e \<Rightarrow> Inl e
                 | Inr s \<Rightarrow> Inr \<lparr>motor_input_reference = m, servo_input_reference = s\<rparr>))"




section \<open>IMU sequence tracking\<close>

text \<open>
  An IMU message as far as the tracking reads it: its sequence number, as the sender
  counts it, and its simulation timestamp in nanoseconds. The physical quantities it
  carries play no part below.
\<close>

record imu_msg =
  msg_seq :: nat
  msg_stamp :: nat

datatype seq_verdict = FirstSample | InOrder | Gap | Duplicate | OutOfOrder

datatype sync_report = DegradedSync

text \<open>
  The tracking state. \<open>previous_imu_seq\<close> is the header's \<open>previous_imu_seq_\<close> and
  \<open>last_imu_message\<close> its \<open>last_imu_message_\<close>, which is \<open>None\<close> as long as nothing
  has been received on the stream; \<open>accepted\<close> lists the samples handed on for
  encoding, oldest first (the codec encodes one outbound message for each), and
  \<open>reports\<close> the degraded-sync reports made so far.
\<close>

record imu_state =
  previous_imu_seq :: uint8_t
  last_imu_message :: "imu_msg option"
  accepted :: "imu_msg list"
  reports :: "sync_report list"

definition imu_state_init :: imu_state where
  "imu_state_init =
     \<lparr>previous_imu_seq = previous_imu_seq_init, last_imu_message = None,
      accepted = [], reports = []\<rparr>"

text \<open>
  How far ahead of the stored number an incoming number lies on the 8-bit circle: the
  number of increments that lead from the one to the other.
\<close>

definition seq_distance :: "uint8_t \<Rightarrow> uint8_t \<Rightarrow> nat" where
  "seq_distance prev s = unat (s - prev)"

text \<open>
  Modelled from the spec: the body of \<open>ImuCallback\<close> is not in the header. Section 4.1:
  an 8-bit rolling sequence number per IMU stream detects gaps (message loss) and
  duplicates (re-delivery); duplicates are silently dropped, gaps are reported as
  degraded-sync (non-fatal). Section 3: an out-of-order or duplicate IMU sequence number
  is detected and discarded.

  As long as nothing has been received there is no number to compare with, and the
  sample is the first of the stream. Afterwards a number equal to the stored one is a
  re-delivery, the stored one plus one is the next sample, a number further ahead is a
  gap, and any other number lies behind the stored one and is out of order. The spec
  does not say how far ahead a number may lie and still be a loss rather than a step
  back; that bound is the parameter \<open>gap_window\<close>.
\<close>

definition classify_seq :: "nat \<Rightarrow> imu_msg option \<Rightarrow> uint8_t \<Rightarrow> uint8_t \<Rightarrow> seq_verdict" where
  "classify_seq gap_window latest prev s =
     (case latest of
        None \<Rightarrow> FirstSample
      | Some m \<Rightarrow>
          if s = prev then Duplicate
          else if s = next_imu_seq prev then InOrder
          else if seq_distance prev s \<le> gap_window then Gap
          else OutOfOrder)"

definition accept_sample :: "imu_msg \<Rightarrow> imu_state \<Rightarrow> imu_state" where
  "accept_sample m st =
     st\<lparr>previous_imu_seq := store_imu_seq (msg_seq m), last_imu_message := Some m,
        accepted := accepted st @ [m]\<rparr>"

definition ImuCallback :: "nat \<Rightarrow> imu_msg \<Rightarrow> imu_state \<Rightarrow> imu_state" where
  "ImuCallback gap_window m st =
     (case classify_seq gap_window (last_imu_message st) (previous_imu_seq st)
             (store_imu_seq (msg_seq m)) of
        FirstSample \<Rightarrow> accept_sample m st
      | InOrder \<Rightarrow> accept_sample m st
      | Gap \<Rightarrow> (accept_sample m st)\<lparr>reports := reports st @ [DegradedSync]\<rparr>
      | Duplicate \<Rightarrow> st
      | OutOfOrder \<Rightarrow> st)"

fun feed_imu :: "nat \<Rightarrow> imu_msg list \<Rightarrow> imu_state \<Rightarrow> imu_state" where
  "feed_imu gap_window [] st = st"
| "feed_imu gap_window (m # ms) st = feed_imu gap_window ms (ImuCallback gap_window m st)"

text \<open>Messages that carry nothing but a sequence number and a timestamp 4 ms apart.\<close>

definition imu_sample :: "nat \<Rightarrow> imu_msg" where
  "imu_sample n = \<lparr>msg_seq = n, msg_stamp = 4000000 * n\<rparr>"

section \<open>LockstepController\<close>

datatype connection_state = Unresolved | Resolving | Connected | Closed

datatype await_result = ResponseArrived | TimedOut | Closing

datatype bridge_event = SensorSend nat | ActuatorReceive nat | DegradedSyncWarning nat

text \<open>
  What one tick meets from outside the simulation thread: the step duration, whether the
  shutdown flag is set at the top of the step, the connection state the transport shows,
  and what the blocking wait for the response returns when it is entered.
\<close>

record tick_input =
  step_duration :: nat
  sigint :: bool
  connection :: connection_state
  await :: await_result

text \<open>
  \<open>step_no\<close> counts the ticks, \<open>sim_time\<close> and \<open>last_ack_time\<close> are in nanoseconds,
  \<open>closing\<close> is the shutdown flag once observed, and \<open>trace\<close> is the observed
  event order, oldest event first.
\<close>

record lockstep_state =
  step_no :: nat
  sim_time :: nat
  last_ack_time :: nat
  closing :: bool
  trace :: "bridge_event list"

definition lockstep_init :: lockstep_state where
  "lockstep_init = \<lparr>step_no = 0, sim_time = 0, last_ack_time = 0, closing = False, trace = []\<rparr>"

text \<open>
  Modelled from the spec: \<open>OnSimulationAdvance\<close> with lockstep enabled; the bodies of
  \<open>PreUpdate\<close>, \<open>SendSensorMessages\<close> and \<open>handle_actuator_controls\<close> are not in the
  header. Sections 4.1, 4.5 and 5:
  \<^item> the shutdown flag is checked at the top of every step; once set, no further sends
    are attempted;
  \<^item> while the transport is not connected, sends are no-ops and the wait fails open;
  \<^item> otherwise the bridge sends the sensor sample of the step and blocks until the
    response arrives (the response is received and simulation time advances), the
    bounded timeout expires (the step proceeds with a degraded-sync warning), or the
    shutdown signal is observed (the wait returns with the closing result).
\<close>

definition OnSimulationAdvance :: "tick_input \<Rightarrow> lockstep_state \<Rightarrow> lockstep_state" where
  "OnSimulationAdvance inp st =
     (let n = step_no st; t = sim_time st + step_duration inp in
      if closing st \<or> sigint inp then st\<lparr>step_no := n + 1, closing := True\<rparr>
      else if connection inp \<noteq> Connected then st\<lparr>step_no := n + 1, sim_time := t\<rparr>
      else (case await inp of
              ResponseArrived \<Rightarrow>
                st\<lparr>step_no := n + 1, sim_time := t, last_ack_time := sim_time st,
                   trace := trace st @ [SensorSend n, ActuatorReceive n]\<rparr>
            | TimedOut \<Rightarrow>
                st\<lparr>step_no := n + 1, sim_time := t,
                   trace := trace st @ [SensorSend n, DegradedSyncWarning n]\<rparr>
            | Closing \<Rightarrow>
                st\<lparr>step_no := n + 1, closing := True,
                   trace := trace st @ [SensorSend n]\<rparr>))"

fun run_lockstep :: "tick_input list \<Rightarrow> lockstep_state \<Rightarrow> lockstep_state" where
  "run_lockstep [] st = st"
| "run_lockstep (inp # inps) st = run_lockstep inps (OnSimulationAdvance inp st)"

text \<open>The steps whose sample was sent, and the steps whose response was received, in trace order.\<close>

fun send_steps :: "bridge_event list \<Rightarrow> nat list" where
  "send_steps [] = []"
| "send_steps (SensorSend n # es) = n # send_steps es"
| "send_steps (e # es) = send_steps es"

fun receive_steps :: "bridge_event list \<Rightarrow> nat list" where
  "receive_steps [] = []"
| "receive_steps (ActuatorReceive n # es) = n # receive_steps es"
| "receive_steps (e # es) = receive_steps es"

text \<open>
  The ordering property of a trace: every receive of the response of a step has the send
  of the sample of that step at an earlier position.
\<close>

definition send_before_receive :: "bridge_event list \<Rightarrow> bool" where
  "send_before_receive tr \<longleftrightarrow>
     (\<forall>j n. j < length tr \<and> tr ! j = ActuatorReceive n \<longrightarrow> (\<exists>i<j. tr ! i = SensorSend n))"

text \<open>
  The stronger form the lockstep loop keeps: the event just before a receive is the send
  of the same step, so no other sample is sent between a send and its response.
\<close>

definition receive_follows_send :: "bridge_event list \<Rightarrow> bool" where
  "receive_follows_send tr \<longleftrightarrow>
     (\<forall>j n. j < length tr \<and> tr ! j = ActuatorReceive n \<longrightarrow>
            0 < j \<and> tr ! (j - 1) = SensorSend n)"

text \<open>The invariant of the lockstep loop that carries the ordering properties from tick to tick.\<close>

definition lockstep_inv :: "lockstep_state \<Rightarrow> bool" where
  "lockstep_inv st \<longleftrightarrow>
     receive_follows_send (trace st) \<and>
     (\<forall>n \<in> set (send_steps (trace st)). n < step_no st) \<and>
     (\<forall>n \<in> set (receive_steps (trace st)). n < step_no st) \<and>
     distinct (send_steps (trace st)) \<and>
     sorted_wrt (<) (receive_steps (trace st))"

text \<open>Three ticks of 1 ms on a connected transport: a response, a timeout, a response.\<close>

definition tick :: "await_result \<Rightarrow> tick_input" where
  "tick r = \<lparr>step_duration = 1000000, sigint = False, connection = Connected, await = r\<rparr>"

definition lockstep_scenario :: "tick_input list" where
  "lockstep_scenario = [tick ResponseArrived, tick TimedOut, tick ResponseArrived]"

text \<open>
  A table with a motor channel, a servo channel and an unused channel, whose disarmed
  values differ from each other and from the command.
\<close>

definition mixed_config :: "channel_config list" where
  "mixed_config =
     [\<lparr>joint_control_type = Motor, zero_position_disarmed = 100, zero_position_armed = 150,
       input_offset = 0, motor_vel_scaling = 1000, motor_input_index = 1,
       servo_input_index = -1\<rparr>,
      \<lparr>joint_control_type = Unused, zero_position_disarmed = 7, zero_position_armed = 7,
       input_offset = 0, motor_vel_scaling = 1, motor_input_index = -1,
       servo_input_index = -1\<rparr>,
      \<lparr>joint_control_type = Servo, zero_position_disarmed = 0.5, zero_position_armed = 0.25,
       input_offset = 0, motor_vel_scaling = 2, motor_input_index = -1,
       servo_input_index = 0\<rparr>]"

definition mixed_command :: "bool \<Rightarrow> actuator_command" where
  "mixed_command a = \<lparr>armed = a, controls = [0.25, 0.75]\<rparr>"

section \<open>The motor velocity scaling table at construction\<close>

lemma aggregate_init_length:
  "aggregate_init n inits = Some xs \<Longrightarrow> length xs = n"
  by (auto simp: aggregate_init_def split: if_splits)

lemma aggregate_init_listed:
  "aggregate_init n inits = Some xs \<Longrightarrow> i < length inits \<Longrightarrow> xs ! i = inits ! i"
  by (auto simp: aggregate_init_def nth_append split: if_splits)

lemma aggregate_init_rest:
  "aggregate_init n inits = Some xs \<Longrightarrow> length inits \<le> i \<Longrightarrow> i < n \<Longrightarrow> xs ! i = 0"
  by (auto simp: aggregate_init_def nth_append split: if_splits)

lemma motor_vel_scalings_init_Some:
  "motor_vel_scalings_init = Some (1 # replicate 15 0)"
  by (simp add: motor_vel_scalings_init_def aggregate_init_def n_out_max_def)

text \<open>
  Claim C9. The initialiser \<open>{1.0}\<close> of \<open>motor_vel_scalings_\<close> gives the table 16
  entries, of which entry 0 is 1.0 and each of the entries 1 to 15 is 0.0: only index 0
  starts with the scaling 1.0.
\<close>

theorem motor_vel_scalings_default:
  "\<exists>tbl. motor_vel_scalings_init = Some tbl \<and> length tbl = n_out_max \<and> tbl ! 0 = 1 \<and>
     (\<forall>i. 1 \<le> i \<and> i < n_out_max \<longrightarrow> tbl ! i = 0 \<and> tbl ! i \<noteq> 1)"
proof -
  obtain tbl where tbl: "motor_vel_scalings_init = Some tbl"
    using motor_vel_scalings_init_Some by simp
  then have agg: "aggregate_init n_out_max [1.0] = Some tbl"
    by (simp add: motor_vel_scalings_init_def)
  have len: "length tbl = n_out_max"
    using agg by (rule aggregate_init_length)
  have first: "tbl ! 0 = 1"
    using aggregate_init_listed [OF agg, of 0] by simp
  have rest: "tbl ! i = 0" if "1 \<le> i" "i < n_out_max" for i
    using aggregate_init_rest [OF agg, of i] that by simp
  show ?thesis
    using tbl len first rest by auto
qed

theorem motor_vel_scalings_default_witness:
  "(1::nat) \<le> 7 \<and> 7 < n_out_max \<and>
   (\<exists>tbl. motor_vel_scalings_init = Some tbl \<and> tbl ! 0 = 1 \<and> tbl ! 7 = 0)"
proof -
  have r: "(1::nat) \<le> 7 \<and> 7 < n_out_max"
    by (simp add: n_out_max_def)
  from motor_vel_scalings_default obtain tbl where
    t: "motor_vel_scalings_init = Some tbl" "tbl ! 0 = 1"
       "\<forall>i. 1 \<le> i \<and> i < n_out_max \<longrightarrow> tbl ! i = 0 \<and> tbl ! i \<noteq> 1"
    by blast
  from t(3) r have "tbl ! 7 = 0" by blast
  with t r show ?thesis by blast
qed

section \<open>The 8-bit sequence counter\<close>

lemma next_imu_seq_plus: "next_imu_seq s = s + 1"
  by (simp add: next_imu_seq_def)

lemma unat_next_imu_seq: "unat (next_imu_seq s) = (unat s + 1) mod 256"
  unfolding next_imu_seq_def by (simp only: unat_of_nat take_bit_eq_mod) simp

lemma funpow_next_imu_seq: "(next_imu_seq ^^ k) s = s + of_nat k"
  by (induction k) (simp_all add: next_imu_seq_plus)

lemma unat_funpow_next: "unat ((next_imu_seq ^^ k) s) = (unat s + k) mod 256"
  by (simp add: funpow_next_imu_seq unat_word_ariths unat_of_nat mod_add_right_eq)

lemma unat_store_imu_seq: "unat (store_imu_seq n) = n mod 256"
  by (simp add: store_imu_seq_def unat_of_nat)

lemma store_imu_seq_eq_iff: "store_imu_seq a = store_imu_seq b \<longleftrightarrow> a mod 256 = b mod 256"
  by (simp add: word_unat_eq_iff [of "store_imu_seq a"] unat_store_imu_seq)

lemma store_imu_seq_period: "store_imu_seq (n + 256 * m) = store_imu_seq n"
  by (simp add: store_imu_seq_eq_iff)

text \<open>
  Claim C10. \<open>previous_imu_seq_\<close> is an unsigned 8-bit member, so the tracking counts
  modulo 256: \<open>k\<close> increments from \<open>s\<close> give \<open>(s + k) mod 256\<close>, a value below 256;
  the increment of 255 is 0; and two sequence numbers are stored as the same value exactly
  when they agree modulo 256, so numbers that differ by a multiple of 256 cannot be told
  apart.
\<close>

theorem imu_seq_modulo_256:
  "unat ((next_imu_seq ^^ k) s) = (unat s + k) mod 256 \<and>
   unat ((next_imu_seq ^^ k) s) < 256 \<and>
   next_imu_seq 255 = 0 \<and>
   store_imu_seq (n + 256 * m) = store_imu_seq n \<and>
   (store_imu_seq a = store_imu_seq b) = (a mod 256 = b mod 256) \<and>
   previous_imu_seq_init = 0"
  using store_imu_seq_eq_iff [of a b]
  by (simp add: unat_funpow_next store_imu_seq_period next_imu_seq_def previous_imu_seq_init_def)

section \<open>The dispatcher, disarmed and armed\<close>

lemma collect_all_Inr:
  "(\<And>x. x \<in> set xs \<Longrightarrow> g x = Inr (f x)) \<Longrightarrow> collect (map g xs) = Inr (map f xs)"
  by (induction xs) simp_all

lemma scaled_output_disarmed:
  "\<not> armed cmd \<Longrightarrow> scaled_output cmd c i = Inr (zero_position_disarmed c)"
  by (simp add: scaled_output_def)


lemma scaled_output_miss:
  "armed cmd \<Longrightarrow> i < 0 \<or> length (controls cmd) \<le> nat i \<Longrightarrow>
   scaled_output cmd c i = Inl (SourceIndexOutOfRange i)"
  by (auto simp: scaled_output_def raw_value_def)

lemma collect_motor_disarmed:
  "\<not> armed cmd \<Longrightarrow> collect (map (motor_output cmd) cs) = Inr (map zero_position_disarmed cs)"
  by (rule collect_all_Inr) (simp add: motor_output_def scaled_output_disarmed)

lemma collect_servo_disarmed:
  "\<not> armed cmd \<Longrightarrow> collect (map (servo_output cmd) cs) = Inr (map zero_position_disarmed cs)"
  by (rule collect_all_Inr) (simp add: servo_output_def scaled_output_disarmed)



lemma mixed_motor_channels: "channels_of Motor mixed_config = [mixed_config ! 0]"
  by (simp add: channels_of_def mixed_config_def)

lemma mixed_servo_channels: "channels_of Servo mixed_config = [mixed_config ! 2]"
  by (simp add: channels_of_def mixed_config_def)

text \<open>
  Claim C2. For every channel table and every command, when the command is disarmed the
  output on each channel is that channel's zero-position-disarmed value: for one motor or
  servo channel, for the motor vector, for the servo vector and for the dispatcher as a
  whole. The raw intensities do not occur in the result.
\<close>

theorem dispatcher_disarmed:
  assumes "\<not> armed cmd"
  shows "motor_output cmd c = Inr (zero_position_disarmed c) \<and>
     servo_output cmd c = Inr (zero_position_disarmed c) \<and>
     motor_velocities cfg cmd = Inr (map zero_position_disarmed (channels_of Motor cfg)) \<and>
     servo_positions cfg cmd = Inr (map zero_position_disarmed (channels_of Servo cfg)) \<and>
     ActuatorDispatcher cfg cmd =
       Inr \<lparr>motor_input_reference = map zero_position_disarmed (channels_of Motor cfg),
            servo_input_reference = map zero_position_disarmed (channels_of Servo cfg)\<rparr>"
proof -
  have m: "motor_velocities cfg cmd = Inr (map zero_position_disarmed (channels_of Motor cfg))"
    unfolding motor_velocities_def using assms by (rule collect_motor_disarmed)
  have s: "servo_positions cfg cmd = Inr (map zero_position_disarmed (channels_of Servo cfg))"
    unfolding servo_positions_def using assms by (rule collect_servo_disarmed)
  show ?thesis
    using assms m s
    by (simp add: ActuatorDispatcher_def motor_output_def servo_output_def
          scaled_output_disarmed)
qed

theorem dispatcher_disarmed_witness:
  "\<not> armed (mixed_command False) \<and>
   ActuatorDispatcher mixed_config (mixed_command False) =
     Inr \<lparr>motor_input_reference = [100], servo_input_reference = [0.5]\<rparr>"
proof -
  have d: "\<not> armed (mixed_command False)"
    by (simp add: mixed_command_def)
  have "ActuatorDispatcher mixed_config (mixed_command False) =
       Inr \<lparr>motor_input_reference = map zero_position_disarmed (channels_of Motor mixed_config),
            servo_input_reference = map zero_position_disarmed (channels_of Servo mixed_config)\<rparr>"
    using dispatcher_disarmed [OF d] by blast
  then show ?thesis
    using d by (simp add: mixed_motor_channels mixed_servo_channels) (simp add: mixed_config_def)
qed



section \<open>Duplicates and gaps in the IMU sequence\<close>

lemma seq_distance_zero: "seq_distance prev s = 0 \<longleftrightarrow> s = prev"
  by (simp add: seq_distance_def unat_eq_0)

lemma seq_distance_one: "seq_distance prev s = 1 \<longleftrightarrow> s = next_imu_seq prev"
proof -
  have "seq_distance prev s = 1 \<longleftrightarrow> unat (s - prev) = unat (1 :: uint8_t)"
    by (simp add: seq_distance_def)
  also have "\<dots> \<longleftrightarrow> s - prev = 1"
    by (rule word_unat_eq_iff [symmetric])
  also have "\<dots> \<longleftrightarrow> s = prev + 1"
    by (simp add: algebra_simps eq_diff_eq)
  finally show ?thesis
    by (simp add: next_imu_seq_plus)
qed






lemma classify_out_of_order:
  assumes "w < seq_distance prev s" and "1 \<le> w"
  shows "classify_seq w (Some prior) prev s = OutOfOrder"
proof -
  from assms have "s \<noteq> prev"
    using seq_distance_zero [of prev s] by auto
  moreover from assms have "s \<noteq> next_imu_seq prev"
    using seq_distance_one [of prev s] by auto
  ultimately show ?thesis
    using assms(1) by (simp add: classify_seq_def)
qed






lemma ImuCallback_out_of_order:
  assumes "last_imu_message st = Some prior" and "1 \<le> w"
    and "w < seq_distance (previous_imu_seq st) (store_imu_seq (msg_seq m))"
  shows "ImuCallback w m st = st"
  using assms by (simp add: ImuCallback_def classify_out_of_order)






lemma step_back_discarded:
  "accepted (feed_imu 128 [imu_sample 5, imu_sample 6, imu_sample 5] imu_state_init) =
     [imu_sample 5, imu_sample 6]"
proof -
  have "unat (- 1 :: uint8_t) = 255"
    by (simp add: unsigned_minus_1_eq_mask mask_eq_exp_minus_1)
  then show ?thesis
    by (simp add: ImuCallback_def classify_seq_def accept_sample_def imu_state_init_def
        previous_imu_seq_init_def store_imu_seq_def next_imu_seq_def seq_distance_def
        imu_sample_def)
qed

section \<open>Event order in lockstep mode\<close>

lemma send_steps_append: "send_steps (xs @ ys) = send_steps xs @ send_steps ys"
  by (induction xs rule: send_steps.induct) simp_all

lemma receive_steps_append: "receive_steps (xs @ ys) = receive_steps xs @ receive_steps ys"
  by (induction xs rule: receive_steps.induct) simp_all

lemma receive_follows_send_imp:
  assumes "receive_follows_send tr"
  shows "send_before_receive tr"
  unfolding send_before_receive_def
proof (intro allI impI)
  fix j n
  assume "j < length tr \<and> tr ! j = ActuatorReceive n"
  with assms have "0 < j" "tr ! (j - 1) = SensorSend n"
    unfolding receive_follows_send_def by blast+
  then have "j - 1 < j \<and> tr ! (j - 1) = SensorSend n"
    by simp
  then show "\<exists>i<j. tr ! i = SensorSend n"
    by blast
qed

lemma receive_follows_send_snoc_other:
  assumes old: "receive_follows_send tr"
    and other: "\<And>n. e \<noteq> ActuatorReceive n"
  shows "receive_follows_send (tr @ [e])"
  unfolding receive_follows_send_def
proof (intro allI impI, elim conjE)
  fix j n
  assume len: "j < length (tr @ [e])" and at: "(tr @ [e]) ! j = ActuatorReceive n"
  have "j \<noteq> length tr"
    using at other by auto
  with len have inside: "j < length tr"
    by simp
  with at have "tr ! j = ActuatorReceive n"
    by (simp add: nth_append)
  with old inside have pos: "0 < j" and prev: "tr ! (j - 1) = SensorSend n"
    unfolding receive_follows_send_def by blast+
  from inside have "j - 1 < length tr"
    by simp
  then have "(tr @ [e]) ! (j - 1) = tr ! (j - 1)"
    by (rule nth_append_left)
  with pos prev show "0 < j \<and> (tr @ [e]) ! (j - 1) = SensorSend n"
    by simp
qed

lemma receive_follows_send_snoc_receive:
  assumes old: "receive_follows_send (tr @ [SensorSend k])"
  shows "receive_follows_send ((tr @ [SensorSend k]) @ [ActuatorReceive k])"
  unfolding receive_follows_send_def
proof (intro allI impI, elim conjE)
  fix j n
  let ?tr = "tr @ [SensorSend k]"
  assume len: "j < length (?tr @ [ActuatorReceive k])"
    and at: "(?tr @ [ActuatorReceive k]) ! j = ActuatorReceive n"
  show "0 < j \<and> (?tr @ [ActuatorReceive k]) ! (j - 1) = SensorSend n"
  proof (cases "j < length ?tr")
    case True
    then have "(?tr @ [ActuatorReceive k]) ! j = ?tr ! j"
      by (rule nth_append_left)
    with at have "?tr ! j = ActuatorReceive n"
      by simp
    with old True have pos: "0 < j" and prev: "?tr ! (j - 1) = SensorSend n"
      unfolding receive_follows_send_def by blast+
    from True have "j - 1 < length ?tr"
      by simp
    then have "(?tr @ [ActuatorReceive k]) ! (j - 1) = ?tr ! (j - 1)"
      by (rule nth_append_left)
    with pos prev show ?thesis
      by simp
  next
    case False
    with len have j: "j = length ?tr"
      by simp
    have "(?tr @ [ActuatorReceive k]) ! length ?tr = ActuatorReceive k"
      by (rule nth_append_length)
    with at j have n: "n = k"
      by (simp only: bridge_event.inject)
    have "(?tr @ [ActuatorReceive k]) ! (length ?tr - 1) = ?tr ! (length ?tr - 1)"
      by (rule nth_append_left) simp
    also have "\<dots> = SensorSend k"
      by simp
    finally show ?thesis
      using j n by simp
  qed
qed

lemma receive_follows_send_send:
  "receive_follows_send tr \<Longrightarrow> receive_follows_send (tr @ [SensorSend k])"
  by (rule receive_follows_send_snoc_other) simp_all

lemma receive_follows_send_timeout:
  assumes "receive_follows_send tr"
  shows "receive_follows_send (tr @ [SensorSend k, DegradedSyncWarning k])"
proof -
  have "receive_follows_send ((tr @ [SensorSend k]) @ [DegradedSyncWarning k])"
    by (rule receive_follows_send_snoc_other [OF receive_follows_send_send [OF assms]]) simp
  then show ?thesis by simp
qed

lemma receive_follows_send_response:
  assumes "receive_follows_send tr"
  shows "receive_follows_send (tr @ [SensorSend k, ActuatorReceive k])"
proof -
  have "receive_follows_send ((tr @ [SensorSend k]) @ [ActuatorReceive k])"
    by (rule receive_follows_send_snoc_receive [OF receive_follows_send_send [OF assms]])
  then show ?thesis by simp
qed

lemma lockstep_inv_init: "lockstep_inv lockstep_init"
  by (simp add: lockstep_inv_def lockstep_init_def receive_follows_send_def)

lemma OnSimulationAdvance_stopped:
  "closing st \<or> sigint inp \<Longrightarrow>
   OnSimulationAdvance inp st = st\<lparr>step_no := step_no st + 1, closing := True\<rparr>"
  by (simp add: OnSimulationAdvance_def Let_def)

lemma OnSimulationAdvance_unconnected:
  "\<not> (closing st \<or> sigint inp) \<Longrightarrow> connection inp \<noteq> Connected \<Longrightarrow>
   OnSimulationAdvance inp st =
     st\<lparr>step_no := step_no st + 1, sim_time := sim_time st + step_duration inp\<rparr>"
  by (simp add: OnSimulationAdvance_def Let_def)

lemma OnSimulationAdvance_response:
  "\<not> (closing st \<or> sigint inp) \<Longrightarrow> connection inp = Connected \<Longrightarrow>
   await inp = ResponseArrived \<Longrightarrow>
   OnSimulationAdvance inp st =
     st\<lparr>step_no := step_no st + 1, sim_time := sim_time st + step_duration inp,
        last_ack_time := sim_time st,
        trace := trace st @ [SensorSend (step_no st), ActuatorReceive (step_no st)]\<rparr>"
  by (simp add: OnSimulationAdvance_def Let_def)

lemma OnSimulationAdvance_timeout:
  "\<not> (closing st \<or> sigint inp) \<Longrightarrow> connection inp = Connected \<Longrightarrow>
   await inp = TimedOut \<Longrightarrow>
   OnSimulationAdvance inp st =
     st\<lparr>step_no := step_no st + 1, sim_time := sim_time st + step_duration inp,
        trace := trace st @ [SensorSend (step_no st), DegradedSyncWarning (step_no st)]\<rparr>"
  by (simp add: OnSimulationAdvance_def Let_def)

lemma OnSimulationAdvance_shutdown:
  "\<not> (closing st \<or> sigint inp) \<Longrightarrow> connection inp = Connected \<Longrightarrow>
   await inp = Closing \<Longrightarrow>
   OnSimulationAdvance inp st =
     st\<lparr>step_no := step_no st + 1, closing := True,
        trace := trace st @ [SensorSend (step_no st)]\<rparr>"
  by (simp add: OnSimulationAdvance_def Let_def)

lemma OnSimulationAdvance_cases:
  obtains
    (stopped) "OnSimulationAdvance inp st = st\<lparr>step_no := step_no st + 1, closing := True\<rparr>"
  | (unconnected) "OnSimulationAdvance inp st =
        st\<lparr>step_no := step_no st + 1, sim_time := sim_time st + step_duration inp\<rparr>"
  | (response) "OnSimulationAdvance inp st =
        st\<lparr>step_no := step_no st + 1, sim_time := sim_time st + step_duration inp,
           last_ack_time := sim_time st,
           trace := trace st @ [SensorSend (step_no st), ActuatorReceive (step_no st)]\<rparr>"
  | (timeout) "OnSimulationAdvance inp st =
        st\<lparr>step_no := step_no st + 1, sim_time := sim_time st + step_duration inp,
           trace := trace st @ [SensorSend (step_no st), DegradedSyncWarning (step_no st)]\<rparr>"
  | (shutdown) "OnSimulationAdvance inp st =
        st\<lparr>step_no := step_no st + 1, closing := True,
           trace := trace st @ [SensorSend (step_no st)]\<rparr>"
proof (cases "closing st \<or> sigint inp")
  case True
  then show ?thesis by (rule stopped [OF OnSimulationAdvance_stopped])
next
  case run: False
  show ?thesis
  proof (cases "connection inp = Connected")
    case False
    with run show ?thesis by (intro unconnected OnSimulationAdvance_unconnected)
  next
    case True
    show ?thesis
    proof (cases "await inp")
      case ResponseArrived
      with run True show ?thesis by (intro response OnSimulationAdvance_response)
    next
      case TimedOut
      with run True show ?thesis by (intro timeout OnSimulationAdvance_timeout)
    next
      case Closing
      with run True show ?thesis by (intro shutdown OnSimulationAdvance_shutdown)
    qed
  qed
qed

lemma lockstep_inv_step:
  assumes "lockstep_inv st"
  shows "lockstep_inv (OnSimulationAdvance inp st)"
proof -
  let ?n = "step_no st"
  from assms have
    sbr: "receive_follows_send (trace st)" and
    sb: "\<forall>n \<in> set (send_steps (trace st)). n < ?n" and
    rb: "\<forall>n \<in> set (receive_steps (trace st)). n < ?n" and
    ds: "distinct (send_steps (trace st))" and
    sr: "sorted_wrt (<) (receive_steps (trace st))"
    by (simp_all add: lockstep_inv_def)
  have fresh: "?n \<notin> set (send_steps (trace st))"
    using sb by auto
  have sb': "\<forall>n \<in> set (send_steps (trace st)). n < Suc ?n"
    using sb by auto
  have rb': "\<forall>n \<in> set (receive_steps (trace st)). n < Suc ?n"
    using rb by auto
  have sbr1: "receive_follows_send (trace st @ [SensorSend ?n])"
    using sbr by (rule receive_follows_send_send)
  have sbr2: "receive_follows_send (trace st @ [SensorSend ?n, DegradedSyncWarning ?n])"
    using sbr by (rule receive_follows_send_timeout)
  have sbr3: "receive_follows_send (trace st @ [SensorSend ?n, ActuatorReceive ?n])"
    using sbr by (rule receive_follows_send_response)
  show ?thesis
  proof (cases inp st rule: OnSimulationAdvance_cases)
    case stopped
    show ?thesis unfolding stopped lockstep_inv_def
      using sbr sb' rb' ds sr by simp
  next
    case unconnected
    show ?thesis unfolding unconnected lockstep_inv_def
      using sbr sb' rb' ds sr by simp
  next
    case response
    show ?thesis unfolding response lockstep_inv_def
      using sbr3 sb' rb' ds sr fresh rb
      by (simp add: send_steps_append receive_steps_append sorted_wrt_append)
  next
    case timeout
    show ?thesis unfolding timeout lockstep_inv_def
      using sbr2 sb' rb' ds sr fresh
      by (simp add: send_steps_append receive_steps_append)
  next
    case shutdown
    show ?thesis unfolding shutdown lockstep_inv_def
      using sbr1 sb' rb' ds sr fresh
      by (simp add: send_steps_append receive_steps_append)
  qed
qed

lemma lockstep_inv_run:
  "lockstep_inv st \<Longrightarrow> lockstep_inv (run_lockstep inps st)"
  by (induction inps arbitrary: st) (simp_all add: lockstep_inv_step)

lemma lockstep_scenario_trace:
  "trace (run_lockstep lockstep_scenario lockstep_init) =
     [SensorSend 0, ActuatorReceive 0, SensorSend 1, DegradedSyncWarning 1,
      SensorSend 2, ActuatorReceive 2]"
  by (simp add: lockstep_scenario_def tick_def lockstep_init_def OnSimulationAdvance_def)

text \<open>
  Claim C1. In a lockstep run from the initial state, whatever the ticks meet: whenever
  the response of step \<open>n\<close> is received at a position of the observed event order, the
  sample of step \<open>n\<close> was sent at an earlier position, in fact at the position just
  before, so that no other sample is sent between a send and its response; no step's
  sample is sent twice; and the responses are received in increasing step order.
\<close>

theorem lockstep_send_precedes_receive:
  "(\<forall>j n. j < length (trace (run_lockstep inps lockstep_init)) \<and>
          trace (run_lockstep inps lockstep_init) ! j = ActuatorReceive n \<longrightarrow>
          (\<exists>i<j. trace (run_lockstep inps lockstep_init) ! i = SensorSend n) \<and>
          0 < j \<and> trace (run_lockstep inps lockstep_init) ! (j - 1) = SensorSend n) \<and>
   distinct (send_steps (trace (run_lockstep inps lockstep_init))) \<and>
   sorted_wrt (<) (receive_steps (trace (run_lockstep inps lockstep_init)))"
proof -
  let ?tr = "trace (run_lockstep inps lockstep_init)"
  have inv: "lockstep_inv (run_lockstep inps lockstep_init)"
    using lockstep_inv_init by (rule lockstep_inv_run)
  then have adj: "receive_follows_send ?tr"
    by (simp add: lockstep_inv_def)
  then have "send_before_receive ?tr"
    by (rule receive_follows_send_imp)
  with adj have "\<forall>j n. j < length ?tr \<and> ?tr ! j = ActuatorReceive n \<longrightarrow>
          (\<exists>i<j. ?tr ! i = SensorSend n) \<and> 0 < j \<and> ?tr ! (j - 1) = SensorSend n"
    unfolding send_before_receive_def receive_follows_send_def by blast
  moreover from inv have "distinct (send_steps ?tr)" "sorted_wrt (<) (receive_steps ?tr)"
    by (simp_all add: lockstep_inv_def)
  ultimately show ?thesis
    by blast
qed

theorem lockstep_send_precedes_receive_witness:
  "5 < length (trace (run_lockstep lockstep_scenario lockstep_init)) \<and>
   trace (run_lockstep lockstep_scenario lockstep_init) ! 5 = ActuatorReceive 2 \<and>
   (\<exists>i<5. trace (run_lockstep lockstep_scenario lockstep_init) ! i = SensorSend 2) \<and>
   send_steps (trace (run_lockstep lockstep_scenario lockstep_init)) = [0, 1, 2] \<and>
   receive_steps (trace (run_lockstep lockstep_scenario lockstep_init)) = [0, 2]"
proof -
  let ?tr = "trace (run_lockstep lockstep_scenario lockstep_init)"
  have h: "5 < length ?tr \<and> ?tr ! 5 = ActuatorReceive 2"
    by (simp add: lockstep_scenario_trace)
  from lockstep_send_precedes_receive [of lockstep_scenario]
  have "\<forall>j n. j < length ?tr \<and> ?tr ! j = ActuatorReceive n \<longrightarrow> (\<exists>i<j. ?tr ! i = SensorSend n)"
    by blast
  with h have "\<exists>i<5. ?tr ! i = SensorSend 2"
    by blast
  moreover have "send_steps ?tr = [0, 1, 2] \<and> receive_steps ?tr = [0, 2]"
    by (simp add: lockstep_scenario_trace)
  ultimately show ?thesis
    using h by blast
qed

end
